theory Spec2Isabelle
  imports Complex_Main
begin

section \<open>Strings\<close>

text \<open>
  A JavaScript string is a sequence of UTF-16 code units, so the model keeps a string as
  the list of its code units. \<open>utf16\<close> embeds an ASCII literal.
\<close>

type_synonym jsstring = "nat list"

definition utf16 :: "string \<Rightarrow> jsstring" where
  "utf16 cs = map of_char cs"

text \<open>
  WhiteSpace and LineTerminator of ECMAScript: the code units that \<open>\s\<close> matches and that
  \<open>String.prototype.trim\<close> removes.
\<close>

definition isSpace :: "nat \<Rightarrow> bool" where
  "isSpace c \<longleftrightarrow>
     c = 9 \<or> c = 10 \<or> c = 11 \<or> c = 12 \<or> c = 13 \<or> c = 32 \<or> c = 160 \<or> c = 5760
     \<or> (8192 \<le> c \<and> c \<le> 8202) \<or> c = 8232 \<or> c = 8233 \<or> c = 8239 \<or> c = 8287
     \<or> c = 12288 \<or> c = 65279"

definition isDigit :: "nat \<Rightarrow> bool" where
  "isDigit c \<longleftrightarrow> 48 \<le> c \<and> c \<le> 57"

definition trim :: "jsstring \<Rightarrow> jsstring" where
  "trim s = rev (dropWhile isSpace (rev (dropWhile isSpace s)))"

text \<open>\<open>content.replace(/\r\n/g, "\n")\<close>\<close>

fun replaceCRLF :: "jsstring \<Rightarrow> jsstring" where
  "replaceCRLF (a # b # cs) =
     (if a = 13 \<and> b = 10 then 10 # replaceCRLF cs else a # replaceCRLF (b # cs))"
| "replaceCRLF cs = cs"

text \<open>\<open>block.split("\n")\<close>: always at least one piece.\<close>

fun splitLines :: "jsstring \<Rightarrow> jsstring list" where
  "splitLines [] = [[]]"
| "splitLines (c # cs) =
     (if c = 10 then [] # splitLines cs
      else (case splitLines cs of l # ls \<Rightarrow> (c # l) # ls | [] \<Rightarrow> [[c]]))"

section \<open>Regular expressions\<close>

text \<open>
  The regular expressions of \<open>parseDraftContent\<close> quantify single-character atoms only, have
  one capture group and one lookahead. A matcher returns every way of matching at the
  start of the input, in the order in which a backtracking engine tries them; the first
  element is the match the engine reports. A matcher state is the content of capture
  group 1 (if it has taken part) and the input that is left.
\<close>

datatype rx =
    Chr "nat \<Rightarrow> bool"
  | Star "nat \<Rightarrow> bool"
  | Plus "nat \<Rightarrow> bool"
  | Opt "nat \<Rightarrow> bool"
  | LazyStar "nat \<Rightarrow> bool"
  | Seq rx rx
  | Alt rx rx
  | Group rx
  | Look rx
  | End

type_synonym mstate = "jsstring option \<times> jsstring"

text \<open>Greedy repetition: the longest run first.\<close>

fun greedy :: "(nat \<Rightarrow> bool) \<Rightarrow> jsstring \<Rightarrow> jsstring list" where
  "greedy p [] = [[]]"
| "greedy p (c # cs) = (if p c then greedy p cs else []) @ [c # cs]"

text \<open>Lazy repetition: the shortest run first.\<close>

fun lazy :: "(nat \<Rightarrow> bool) \<Rightarrow> jsstring \<Rightarrow> jsstring list" where
  "lazy p [] = [[]]"
| "lazy p (c # cs) = (c # cs) # (if p c then lazy p cs else [])"

fun one :: "(nat \<Rightarrow> bool) \<Rightarrow> jsstring \<Rightarrow> jsstring list" where
  "one p [] = []"
| "one p (c # cs) = (if p c then [cs] else [])"

fun ms :: "rx \<Rightarrow> mstate \<Rightarrow> mstate list" where
  "ms (Chr p) (g, inp) = map (Pair g) (one p inp)"
| "ms (Star p) (g, inp) = map (Pair g) (greedy p inp)"
| "ms (Plus p) (g, inp) = map (Pair g) (concat (map (greedy p) (one p inp)))"
| "ms (Opt p) (g, inp) = map (Pair g) (one p inp @ [inp])"
| "ms (LazyStar p) (g, inp) = map (Pair g) (lazy p inp)"
| "ms (Seq r1 r2) st = concat (map (ms r2) (ms r1 st))"
| "ms (Alt r1 r2) st = ms r1 st @ ms r2 st"
| "ms (Group r) (g, inp) =
     map (\<lambda>(g', rest). (Some (take (length inp - length rest) inp), rest)) (ms r (g, inp))"
| "ms (Look r) st = (if ms r st = [] then [] else [st])"
| "ms End (g, inp) = (if inp = [] then [(g, inp)] else [])"

text \<open>
  \<open>text.match(regex)\<close> without the \<open>g\<close> flag: the first start position with a match, and
  there the first match. The result is \<open>match[1]\<close> (\<open>None\<close> inside: the group took no part).
\<close>

fun match :: "rx \<Rightarrow> jsstring \<Rightarrow> jsstring option option" where
  "match r [] = (case ms r (None, []) of [] \<Rightarrow> None | (g, rest) # other \<Rightarrow> Some g)"
| "match r (c # cs) =
     (case ms r (None, c # cs) of [] \<Rightarrow> match r cs | (g, rest) # other \<Rightarrow> Some g)"

text \<open>
  Atoms. With the \<open>i\<close> flag two code units match when their canonical forms (upper case)
  agree, and a code unit above 127 never canonicalises into ASCII: an ASCII letter of the
  pattern matches exactly its two cases.
\<close>

definition toUpperAscii :: "nat \<Rightarrow> nat" where
  "toUpperAscii c = (if 97 \<le> c \<and> c \<le> 122 then c - 32 else c)"

definition toLowerAscii :: "nat \<Rightarrow> nat" where
  "toLowerAscii c = (if 65 \<le> c \<and> c \<le> 90 then c + 32 else c)"

definition ci :: "nat \<Rightarrow> nat \<Rightarrow> bool" where
  "ci p c \<longleftrightarrow> c = toUpperAscii p \<or> c = toLowerAscii p"

definition anyChar :: "nat \<Rightarrow> bool" where
  "anyChar c \<longleftrightarrow> True"

definition colon :: "nat \<Rightarrow> bool" where
  "colon c \<longleftrightarrow> c = 58"

definition newline :: "nat \<Rightarrow> bool" where
  "newline c \<longleftrightarrow> c = 10"

fun seq :: "rx list \<Rightarrow> rx" where
  "seq [r] = r"
| "seq (r # rs) = Seq r (seq rs)"
| "seq [] = Star (\<lambda>c. False)"

text \<open>A literal word under the \<open>i\<close> flag.\<close>

definition word_i :: "string \<Rightarrow> rx list" where
  "word_i w = map (\<lambda>c. Chr (ci (of_char c))) w"

section \<open>The draft parser\<close>

record DraftSections =
  issue :: jsstring
  facts :: jsstring
  analysis :: jsstring
  actions :: jsstring
  references :: "jsstring list"
  raw :: jsstring

definition emptyDraft :: DraftSections where
  "emptyDraft = \<lparr>issue = [], facts = [], analysis = [], actions = [], references = [], raw = []\<rparr>"

text \<open>
  \<open>const dash = "..."\<close>: in the source file the literal is a hyphen followed by the code points
  U+201A U+00C4 U+00EC U+201A U+00C4 U+00EE. Inside a character class under the \<open>i\<close> flag
  each stands for itself and its other case (U+00E4, U+00CC, U+00CE).
\<close>

definition dash :: "nat \<Rightarrow> bool" where
  "dash c \<longleftrightarrow> c \<in> set [45, 8218, 196, 236, 8218, 196, 238] \<or> c \<in> set [228, 204, 206]"

text \<open>\<open>[IVX]\<close> under the \<open>i\<close> flag.\<close>

definition roman :: "nat \<Rightarrow> bool" where
  "roman c \<longleftrightarrow> ci 73 c \<or> ci 86 c \<or> ci 88 c"

text \<open>
  \<open>PART\s+${label}\s*[${dash}]?\s*:?\s*([\s\S]*?)(?=\nPART\s+[IVX]+\s*[${dash}]?\s*:?|\nREFERENCES|\nReferences|$)\<close>
  with flag \<open>i\<close>.
\<close>

definition sectionStart :: "string \<Rightarrow> rx list" where
  "sectionStart label =
     word_i ''PART'' @ [Plus isSpace] @ word_i label @
     [Star isSpace, Opt dash, Star isSpace, Opt colon, Star isSpace]"

definition sectionStop :: rx where
  "sectionStop =
     Alt (seq ([Chr newline] @ word_i ''PART'' @
               [Plus isSpace, Plus roman, Star isSpace, Opt dash, Star isSpace, Opt colon]))
    (Alt (seq ([Chr newline] @ word_i ''REFERENCES''))
    (Alt (seq ([Chr newline] @ word_i ''References''))
         End))"

definition sectionRegex :: "string \<Rightarrow> rx" where
  "sectionRegex label = seq (sectionStart label @ [Group (LazyStar anyChar), Look sectionStop])"

text \<open>
  \<open>match ? normalize(match[1]) : ""\<close>. Group 1 lies on every path of the expression, so
  \<open>match[1]\<close> is a string whenever there is a match.
\<close>

definition getSection :: "jsstring \<Rightarrow> string \<Rightarrow> jsstring" where
  "getSection text label =
     (case match (sectionRegex label) text of
        None \<Rightarrow> []
      | Some None \<Rightarrow> []
      | Some (Some body) \<Rightarrow> trim body)"

text \<open>\<open>/REFERENCES?\s*[:\-...]*\s*([\s\S]*)/i\<close>, the class being a colon and the dashes.\<close>

definition refsStart :: "rx list" where
  "refsStart =
     word_i ''REFERENCE'' @
     [Opt (ci 83), Star isSpace, Star (\<lambda>c. colon c \<or> dash c), Star isSpace]"

definition refsRegex :: rx where
  "refsRegex = seq (refsStart @ [Group (Star anyChar)])"

definition refsBlock :: "jsstring \<Rightarrow> jsstring" where
  "refsBlock text =
     (case match refsRegex text of
        None \<Rightarrow> []
      | Some None \<Rightarrow> []
      | Some (Some block) \<Rightarrow> block)"

text \<open>\<open>line.replace(/^[-*\d.\s]+/, "").trim()\<close>: the leading run of the class is removed.\<close>

definition bullet :: "nat \<Rightarrow> bool" where
  "bullet c \<longleftrightarrow> c = 45 \<or> c = 42 \<or> isDigit c \<or> c = 46 \<or> isSpace c"

definition stripBullet :: "jsstring \<Rightarrow> jsstring" where
  "stripBullet line = trim (dropWhile bullet line)"

definition normalizeText :: "jsstring \<Rightarrow> jsstring" where
  "normalizeText content = trim (replaceCRLF content)"

definition parseDraftContent :: "jsstring \<Rightarrow> DraftSections" where
  "parseDraftContent content =
     (let text = normalizeText content;
          references = filter (\<lambda>l. l \<noteq> []) (map stripBullet (splitLines (refsBlock text)));
          s_issue = getSection text ''I'';
          s_facts = getSection text ''II'';
          s_analysis = getSection text ''III'';
          s_actions = getSection text ''IV'';
          hasContent = list_ex (\<lambda>v. length v > 0) [s_issue, s_facts, s_analysis, s_actions]
      in \<lparr>issue = (if hasContent then s_issue else text),
          facts = s_facts,
          analysis = s_analysis,
          actions = s_actions,
          references = references,
          raw = text\<rparr>)"

section \<open>The game state\<close>

text \<open>
  JavaScript numbers are modelled as real numbers: rounding, infinities and NaN are not
  part of the model. The record \<open>SantaGame\<close> holds the state of the component of that
  name. \<open>houses\<close> is the React state and \<open>housesRef\<close> the ref that mirrors it: a delivery
  writes the state only, the frame loop reads the ref only, and the ref is refreshed by an
  effect of its own. The position and the target are assigned to their refs together
  with the state, and are one field each; so are the session and the count of undelivered
  houses, which the compliance timer reads through \<open>complianceRef\<close> and \<open>remainingRef\<close>.
\<close>

record House =
  house_id :: jsstring
  label :: jsstring
  latitude :: real
  longitude :: real
  delivered :: bool

record Position =
  pos_x :: real
  pos_y :: real

datatype ComplianceStage = Idle | Alert | Drafting | Ready | Submitted

record ComplianceState =
  active :: bool
  agency :: "jsstring option"
  stage :: ComplianceStage

datatype Role = User | Assistant | System

record ChatMessage =
  role :: Role
  content :: jsstring

text \<open>
  A log entry is kept as its text (its id is a fresh random UUID). \<open>resetTimers\<close> counts the
  pending timeouts of \<open>submitCase\<close>; \<open>lastFrame\<close> is the variable \<open>last\<close> of the frame loop.
\<close>

record SantaGame =
  houses :: "House list"
  housesRef :: "House list"
  santa :: Position
  targetId :: "jsstring option"
  logs :: "jsstring list"
  compliance :: ComplianceState
  isValidating :: bool
  draftSections :: DraftSections
  chatMessages :: "ChatMessage list"
  lastFrame :: real
  resetTimers :: nat

datatype error = TypeError

definition clamp :: "real \<Rightarrow> real \<Rightarrow> real \<Rightarrow> real" where
  "clamp v mn mx = (if v < mn then mn else if v > mx then mx else v)"

text \<open>\<open>[...current.slice(-12), entry]\<close>\<close>

definition pushLog :: "jsstring \<Rightarrow> jsstring list \<Rightarrow> jsstring list" where
  "pushLog entry current = drop (length current - 12) current @ [entry]"

text \<open>The decimal digits of a length, as a template literal prints it.\<close>

fun showNat :: "nat \<Rightarrow> jsstring" where
  "showNat n = (if n < 10 then [48 + n] else showNat (n div 10) @ [48 + n mod 10])"

declare showNat.simps [simp del]

definition AGENCIES :: "jsstring list" where
  "AGENCIES =
     [utf16 ''Federal Aviation Administration (FAA) - United States'',
      utf16 ''European Union Aviation Safety Agency (EASA) - Europe'',
      utf16 ''Civil Aviation Administration of China (CAAC) - China'',
      utf16 ''International Civil Aviation Organization (ICAO) - United Nations agency (global)'',
      utf16 ''North American Aerospace Defense Command (NORAD) - United States & Canada'',
      utf16 ''Transport Canada Civil Aviation (TCCA) - Canada'',
      utf16 ''Civil Aviation Authority (CAA) - United Kingdom'',
      utf16 ''Civil Aviation Safety Authority (CASA) - Australia'',
      utf16 ''Directorate General of Civil Aviation (DGCA) - India'',
      utf16 ''NAV CANADA - Canada (air navigation services)'',
      utf16 ''Skeyes (formerly Belgocontrol) - Belgium'',
      utf16 ''Skyguide - Switzerland'',
      utf16 ''Deutsche Flugsicherung (DFS) - Germany'',
      utf16 ''ENAV - Italy'',
      utf16 ''ENAIRE - Spain'',
      utf16 ''Direction des Services de la Navigation A'' @ [8730, 169] @ utf16 ''rienne (DSNA) - France'',
      utf16 ''Civil Aviation Authority of Singapore - Singapore'',
      utf16 ''Civil Aviation Authority of Bangladesh - Bangladesh'',
      utf16 ''Civil Aviation Authority of Nepal - Nepal'',
      utf16 ''Civil Aviation Authority of the Philippines - Philippines'',
      utf16 ''Russian Federal Air Transport Agency (Rosaviatsiya) - Russia'',
      utf16 ''General Authority of Civil Aviation - Saudi Arabia'',
      utf16 ''Civil Aviation Administration (Sweden) - Sweden'',
      utf16 ''PANSA (Polska Agencja '' @ [8776, 170] @ utf16 ''eglugi Powietrznej) - Poland'',
      utf16 ''State Air Traffic Management Corporation - South Africa'']"

definition remainingDeliveries :: "SantaGame \<Rightarrow> nat" where
  "remainingDeliveries s = length (filter (\<lambda>house. \<not> delivered house) (houses s))"

text \<open>
  The effect on \<open>chatMessages\<close>: the draft is parsed again from the last assistant message,
  when there is one and its content is not empty.
\<close>

definition refreshDraft :: "SantaGame \<Rightarrow> SantaGame" where
  "refreshDraft s =
     (let assistantMessages = filter (\<lambda>m. role m = Assistant) (chatMessages s)
      in if length assistantMessages > 0
         then (let c = content (last assistantMessages)
               in if c \<noteq> [] then s\<lparr>draftSections := parseDraftContent c\<rparr> else s)
         else s)"

section \<open>The motion controller\<close>

definition speedPerSecond :: real where
  "speedPerSecond = 22"

definition arrivalRadius :: real where
  "arrivalRadius = 1.4"

text \<open>
  \<open>rnd\<close> is the value of \<open>Math.random()\<close>. An index outside the array reads \<open>undefined\<close>,
  and \<open>next.id\<close> then throws.
\<close>

definition pickNextTarget :: "real \<Rightarrow> SantaGame \<Rightarrow> error + SantaGame" where
  "pickNextTarget rnd s =
     (let remaining = filter (\<lambda>house. \<not> delivered house) (housesRef s)
      in if length remaining = 0 then Inr (s\<lparr>targetId := None\<rparr>)
         else (let i = \<lfloor>rnd * real (length remaining)\<rfloor>
               in if 0 \<le> i \<and> i < int (length remaining)
                  then (let next = remaining ! nat i
                        in Inr (s\<lparr>targetId := Some (house_id next),
                                  logs := pushLog (utf16 ''Routing to '' @ label next @ utf16 '' ('' @
                                            showNat (length remaining) @ utf16 '' left after this).'')
                                            (logs s)\<rparr>))
                  else Inl TypeError))"

text \<open>\<open>!targetRef.current\<close>: null, or the empty string.\<close>

definition noTarget :: "jsstring option \<Rightarrow> bool" where
  "noTarget t \<longleftrightarrow> t = None \<or> t = Some []"

definition step :: "real \<Rightarrow> real \<Rightarrow> SantaGame \<Rightarrow> error + SantaGame" where
  "step timestamp rnd s0 =
     (let deltaSeconds = min ((timestamp - lastFrame s0) / 1000) 0.05;
          s = s0\<lparr>lastFrame := timestamp\<rparr>
      in if active (compliance s) then Inr s
         else if noTarget (targetId s) then pickNextTarget rnd s
         else (case find (\<lambda>house. Some (house_id house) = targetId s \<and> \<not> delivered house)
                      (housesRef s) of
                 None \<Rightarrow> Inr (s\<lparr>targetId := None\<rparr>)
               | Some target \<Rightarrow>
                   (let currentSanta = santa s;
                        dx = longitude target - pos_x currentSanta;
                        dy = latitude target - pos_y currentSanta;
                        distance = sqrt (dx * dx + dy * dy)
                    in if distance < arrivalRadius
                       then Inr (s\<lparr>houses := map (\<lambda>house. if house_id house = house_id target
                                                            then house\<lparr>delivered := True\<rparr> else house)
                                                (houses s),
                                    logs := pushLog (utf16 ''Delivered at '' @ label target @ utf16 ''.'') (logs s),
                                    targetId := None\<rparr>)
                       else (let magnitude = (if distance = 0 then 1 else distance);
                                 deltaX = (dx / magnitude) * speedPerSecond * deltaSeconds;
                                 deltaY = (dy / magnitude) * speedPerSecond * deltaSeconds;
                                 nextSanta = \<lparr>pos_x = clamp (pos_x currentSanta + deltaX) 1 99,
                                              pos_y = clamp (pos_y currentSanta + deltaY) 1 99\<rparr>
                             in Inr (s\<lparr>santa := nextSanta\<rparr>)))))"

section \<open>The interrupt scheduler and the compliance session\<close>

text \<open>\<open>AGENCIES[Math.floor(Math.random() * AGENCIES.length)]\<close>; \<open>None\<close> is \<open>undefined\<close>.\<close>

definition pickAgency :: "real \<Rightarrow> jsstring option" where
  "pickAgency rnd =
     (let i = \<lfloor>rnd * real (length AGENCIES)\<rfloor>
      in if 0 \<le> i \<and> i < int (length AGENCIES) then Some (AGENCIES ! nat i) else None)"

definition agencyText :: "jsstring option \<Rightarrow> jsstring" where
  "agencyText a = (case a of None \<Rightarrow> utf16 ''undefined'' | Some n \<Rightarrow> n)"

definition incidentMessage :: "jsstring option \<Rightarrow> ChatMessage" where
  "incidentMessage a =
     \<lparr>role = Assistant,
      content = utf16 ''Incident: '' @ agencyText a @ utf16 '' has flagged Santa'' @ [39] @
        utf16 ''s sleigh during Christmas Eve gift runs. Share the airspace segment, timing, reindeer-safe altitudes, and corrective steps so the elves can draft a festive, regulation-ready response.''\<rparr>"

definition triggerCompliance :: "real \<Rightarrow> SantaGame \<Rightarrow> SantaGame" where
  "triggerCompliance rnd s =
     (let currentCompliance = compliance s;
          remaining = remainingDeliveries s
      in if \<not> active currentCompliance \<and> remaining > 0
         then (let a = pickAgency rnd
               in refreshDraft
                    (s\<lparr>compliance := \<lparr>active = True, agency = a, stage = Alert\<rparr>,
                       chatMessages := [incidentMessage a],
                       draftSections := emptyDraft,
                       logs := pushLog (agencyText a @
                                 utf16 '' has filed an airspace compliance action. Deliveries paused.'')
                                 (logs s)\<rparr>))
         else s)"

definition startDrafting :: "SantaGame \<Rightarrow> SantaGame" where
  "startDrafting s =
     s\<lparr>compliance := (compliance s)\<lparr>stage := Drafting\<rparr>,
       logs := pushLog (utf16 ''Elf council is drafting the compliance case. Provide details.'') (logs s)\<rparr>"

definition submitCase :: "SantaGame \<Rightarrow> SantaGame" where
  "submitCase s =
     s\<lparr>compliance := (compliance s)\<lparr>stage := Submitted\<rparr>,
       logs := pushLog (utf16 ''Compliance case submitted. Resuming deliveries.'') (logs s),
       resetTimers := Suc (resetTimers s)\<rparr>"

text \<open>The callback that \<open>submitCase\<close> schedules after 1600 ms.\<close>

definition submitReset :: "SantaGame \<Rightarrow> SantaGame" where
  "submitReset s =
     refreshDraft
       (s\<lparr>compliance := \<lparr>active = False, agency = None, stage = Idle\<rparr>,
          chatMessages := [],
          draftSections := emptyDraft\<rparr>)"

text \<open>
  \<open>validateCase\<close> is asynchronous. Its first part runs up to the \<open>fetch\<close>; the second runs when
  the request settles: \<open>Responded status text\<close> when \<open>fetch\<close> and \<open>res.text()\<close> return (\<open>fetch\<close>
  resolves for every HTTP status, and \<open>validateCase\<close> reads the body and never the status),
  \<open>Threw\<close> when one of them throws.
\<close>

datatype FetchResult = Responded nat jsstring | Threw

definition validateGuard :: "SantaGame \<Rightarrow> bool" where
  "validateGuard s \<longleftrightarrow> isValidating s \<or> length (chatMessages s) = 0"

definition validateBegin :: "SantaGame \<Rightarrow> SantaGame" where
  "validateBegin s = (if validateGuard s then s else s\<lparr>isValidating := True\<rparr>)"

definition validateSettle :: "FetchResult \<Rightarrow> SantaGame \<Rightarrow> SantaGame" where
  "validateSettle res s =
     (case res of
        Responded status txt \<Rightarrow>
          refreshDraft
            (s\<lparr>chatMessages := chatMessages s @
                  [\<lparr>role = Assistant,
                    content = (if txt \<noteq> [] then txt else utf16 ''Validation complete.'')\<rparr>],
               compliance := (compliance s)\<lparr>stage := Ready\<rparr>,
               isValidating := False\<rparr>)
      | Threw \<Rightarrow>
          refreshDraft
            (s\<lparr>chatMessages := chatMessages s @
                  [\<lparr>role = Assistant, content = utf16 ''Validation failed. Please retry.''\<rparr>],
               isValidating := False\<rparr>))"

definition validateCase :: "FetchResult \<Rightarrow> SantaGame \<Rightarrow> SantaGame" where
  "validateCase res s = (if validateGuard s then s else validateSettle res (validateBegin s))"

text \<open>
  What \<open>ComplianceModal\<close> offers: it is rendered while the session is active; the start
  button in stage \<open>alert\<close>; the validate button in stage \<open>drafting\<close>, disabled while
  validating; a submit button in stage \<open>drafting\<close> that is disabled unless the stage is
  \<open>ready\<close>, and another in stage \<open>ready\<close>.
\<close>

definition offersStart :: "SantaGame \<Rightarrow> bool" where
  "offersStart s \<longleftrightarrow> active (compliance s) \<and> stage (compliance s) = Alert"

definition offersValidate :: "SantaGame \<Rightarrow> bool" where
  "offersValidate s \<longleftrightarrow>
     active (compliance s) \<and> stage (compliance s) = Drafting \<and> \<not> isValidating s"

definition offersSubmit :: "SantaGame \<Rightarrow> bool" where
  "offersSubmit s \<longleftrightarrow>
     active (compliance s) \<and>
     ((stage (compliance s) = Drafting \<and> \<not> \<not> stage (compliance s) = Ready)
      \<or> stage (compliance s) = Ready)"

section \<open>Runs\<close>

text \<open>
  The callbacks of the component, in any order: an animation frame, the effect that
  copies \<open>houses\<close> into \<open>housesRef\<close>, the restart of the frame loop, the compliance timer, the clicks that the modal offers, the settling of a
  validation request and the timeout of a submission.
\<close>

datatype event =
    Frame real real
  | HousesEffect
  | LoopRestart real
  | ComplianceTimer real
  | ClickStart
  | ClickValidate
  | ValidationSettled FetchResult
  | ClickSubmit
  | SubmitTimeout

fun dispatch :: "event \<Rightarrow> SantaGame \<Rightarrow> error + SantaGame" where
  "dispatch (Frame timestamp rnd) s = step timestamp rnd s"
| "dispatch HousesEffect s = Inr (s\<lparr>housesRef := houses s\<rparr>)"
| "dispatch (LoopRestart now) s = Inr (s\<lparr>lastFrame := now\<rparr>)"
| "dispatch (ComplianceTimer rnd) s = Inr (triggerCompliance rnd s)"
| "dispatch ClickStart s = Inr (if offersStart s then startDrafting s else s)"
| "dispatch ClickValidate s = Inr (if offersValidate s then validateBegin s else s)"
| "dispatch (ValidationSettled res) s = Inr (if isValidating s then validateSettle res s else s)"
| "dispatch ClickSubmit s = Inr (if offersSubmit s then submitCase s else s)"
| "dispatch SubmitTimeout s =
     Inr (if resetTimers s > 0 then submitReset (s\<lparr>resetTimers := resetTimers s - 1\<rparr>) else s)"

fun run :: "event list \<Rightarrow> SantaGame \<Rightarrow> error + SantaGame" where
  "run [] s = Inr s"
| "run (e # es) s = (case dispatch e s of Inl err \<Rightarrow> Inl err | Inr s' \<Rightarrow> run es s')"

text \<open>The state when the houses have been generated, at time \<open>now\<close>.\<close>

definition initial :: "House list \<Rightarrow> real \<Rightarrow> SantaGame" where
  "initial hs now =
     \<lparr>houses = hs,
      housesRef = hs,
      santa = \<lparr>pos_x = 48, pos_y = 30\<rparr>,
      targetId = None,
      logs = [utf16 ''Autopilot engaged. Santa is handling every delivery on his own.''],
      compliance = \<lparr>active = False, agency = None, stage = Idle\<rparr>,
      isValidating = False,
      draftSections = emptyDraft,
      chatMessages = [],
      lastFrame = now,
      resetTimers = 0\<rparr>"

section \<open>The parser's input, described directly\<close>

text \<open>
  What the two regular expressions look for, written as functions on the text. The
  theorems below show that the expressions compute exactly these.
\<close>

text \<open>The text starts with the given word, ignoring case.\<close>

fun ciPrefix :: "jsstring \<Rightarrow> jsstring \<Rightarrow> bool" where
  "ciPrefix [] u = True"
| "ciPrefix (p # ps) [] = False"
| "ciPrefix (p # ps) (c # cs) = (ci p c \<and> ciPrefix ps cs)"

text \<open>
  A label starts here: the word \<open>PART\<close>, at least one white-space character, and the letter
  \<open>I\<close> after the white space (each of the labels \<open>I\<close>, \<open>II\<close>, \<open>III\<close>, \<open>IV\<close> begins with it).
\<close>

definition startsLabel :: "jsstring \<Rightarrow> bool" where
  "startsLabel u \<longleftrightarrow>
     ciPrefix (utf16 ''PART'') u \<and>
     (case drop 4 u of
        [] \<Rightarrow> False
      | w # rest \<Rightarrow> isSpace w \<and> (case dropWhile isSpace rest of [] \<Rightarrow> False | i # v \<Rightarrow> ci 73 i))"

fun hasLabel :: "jsstring \<Rightarrow> bool" where
  "hasLabel [] = False"
| "hasLabel (c # cs) = (startsLabel (c # cs) \<or> hasLabel cs)"

text \<open>The text after the first occurrence of the word \<open>REFERENCE\<close>, ignoring case.\<close>

fun firstMarker :: "jsstring \<Rightarrow> jsstring option" where
  "firstMarker [] = None"
| "firstMarker (c # cs) =
     (if ciPrefix (utf16 ''REFERENCE'') (c # cs) then Some (drop 9 (c # cs)) else firstMarker cs)"

text \<open>
  The block after the marker: an optional \<open>S\<close>, white space, colons and dashes, and white
  space again are skipped.
\<close>

definition afterMarker :: "jsstring \<Rightarrow> jsstring" where
  "afterMarker rest =
     dropWhile isSpace
       (dropWhile (\<lambda>c. colon c \<or> dash c)
          (dropWhile isSpace (case rest of [] \<Rightarrow> [] | c # cs \<Rightarrow> if ci 83 c then cs else rest)))"

text \<open>What follows the label in the expression of a section.\<close>

definition sectionTail :: "rx list" where
  "sectionTail =
     [Star isSpace, Opt dash, Star isSpace, Opt colon, Star isSpace,
      Group (LazyStar anyChar), Look sectionStop]"

section \<open>Invariants and example inputs\<close>

definition inBounds :: "Position \<Rightarrow> bool" where
  "inBounds p \<longleftrightarrow> 1 \<le> pos_x p \<and> pos_x p \<le> 99 \<and> 1 \<le> pos_y p \<and> pos_y p \<le> 99"


definition labeledExample :: jsstring where
  "labeledExample =
     utf16 ''PART I: Issue text'' @ [10] @ utf16 ''PART II: Facts text'' @ [10] @
     utf16 ''REFERENCES:'' @ [10] @ utf16 ''- Source A'' @ [10] @ utf16 ''- Source B''"

text \<open>A text with carriage returns and outer white space, and its normal form.\<close>

definition paddedExample :: jsstring where
  "paddedExample = utf16 ''  Hello'' @ [13, 10] @ utf16 ''elves '' @ [13, 10]"

definition paddedNormal :: jsstring where
  "paddedNormal = utf16 ''Hello'' @ [10] @ utf16 ''elves''"

definition refsOnlyExample :: jsstring where
  "refsOnlyExample =
     utf16 '' REFERENCES:'' @ [13, 10] @ utf16 ''- Source A'' @ [13, 10] @ utf16 ''2. Source B'' @
     [10] @ utf16 ''PART I:'' @ [10]"

definition refsOnlyNormal :: jsstring where
  "refsOnlyNormal =
     utf16 ''REFERENCES:'' @ [10] @ utf16 ''- Source A'' @ [10] @ utf16 ''2. Source B'' @ [10] @
     utf16 ''PART I:''"

definition bulletsOnlyExample :: jsstring where
  "bulletsOnlyExample = utf16 ''REFERENCES:'' @ [10] @ utf16 ''---'' @ [10] @ utf16 ''1.''"

definition exampleHouse :: House where
  "exampleHouse =
     \<lparr>house_id = utf16 ''house-1'', label = utf16 ''House 1'', latitude = 30, longitude = 51,
      delivered = False\<rparr>"

definition doneHouse :: House where
  "doneHouse =
     \<lparr>house_id = utf16 ''house-1'', label = utf16 ''House 1'', latitude = 60, longitude = 70,
      delivered = True\<rparr>"

definition nearHouse :: House where
  "nearHouse =
     \<lparr>house_id = utf16 ''house-2'', label = utf16 ''House 2'', latitude = 30, longitude = 48,
      delivered = False\<rparr>"

definition alertExample :: SantaGame where
  "alertExample = triggerCompliance 0 (initial [exampleHouse] 0)"

definition draftingExample :: SantaGame where
  "draftingExample = startDrafting alertExample"



section \<open>The parser\<close>

lemmas parser_eval = utf16_def word_i_def sectionStart_def sectionStop_def sectionRegex_def
  refsStart_def refsRegex_def getSection_def refsBlock_def
  ci_def toUpperAscii_def toLowerAscii_def isSpace_def isDigit_def anyChar_def colon_def newline_def
  dash_def roman_def trim_def stripBullet_def bullet_def normalizeText_def

lemma utf16_empty: "utf16 cs = [] \<longleftrightarrow> cs = []"
  by (simp add: utf16_def)

subsection \<open>The capture group always takes part\<close>

lemma match_result:
  "match r t = Some g \<Longrightarrow> \<exists>u rest. (g, rest) \<in> set (ms r (None, u))"
proof (induction t)
  case Nil
  then show ?case by (auto split: list.splits) (metis list.set_intros(1))
next
  case (Cons c cs)
  then show ?case by (auto split: list.splits) (metis list.set_intros(1))
qed

lemma ms_Group: "(g, rest) \<in> set (ms (Group r) st) \<Longrightarrow> g \<noteq> None"
  by (cases st) auto

lemma ms_Look: "(g, rest) \<in> set (ms (Look r) st) \<Longrightarrow> g = fst st"
  by (cases st) (auto split: if_splits)

lemma seq_group_look:
  "(g, rest) \<in> set (ms (seq (pre @ [Group a, Look b])) st) \<Longrightarrow> g \<noteq> None"
proof (induction pre arbitrary: st)
  case Nil
  then show ?case by (auto dest!: ms_Look ms_Group)
next
  case (Cons p pre)
  obtain x xs where "pre @ [Group a, Look b] = x # xs" by (cases pre) auto
  with Cons show ?case by auto
qed

lemma seq_group:
  "(g, rest) \<in> set (ms (seq (pre @ [Group a])) st) \<Longrightarrow> g \<noteq> None"
proof (induction pre arbitrary: st)
  case Nil
  then show ?case by (auto dest!: ms_Group)
next
  case (Cons p pre)
  obtain x xs where "pre @ [Group a] = x # xs" by (cases pre) auto
  with Cons show ?case by auto
qed

lemma sectionRegex_group: "match (sectionRegex l) t \<noteq> Some None"
proof
  assume "match (sectionRegex l) t = Some None"
  then obtain u rest where "(None, rest) \<in> set (ms (sectionRegex l) (None, u))"
    using match_result by blast
  then show False unfolding sectionRegex_def by (auto dest: seq_group_look)
qed

lemma refsRegex_group: "match refsRegex t \<noteq> Some None"
proof
  assume "match refsRegex t = Some None"
  then obtain u rest where "(None, rest) \<in> set (ms refsRegex (None, u))"
    using match_result by blast
  then show False unfolding refsRegex_def by (auto dest: seq_group)
qed

subsection \<open>Literal words\<close>

lemma seq_Cons: "rs \<noteq> [] \<Longrightarrow> seq (r # rs) = Seq r (seq rs)"
  by (cases rs) simp_all

lemma ms_Chr_Seq:
  "ms (Seq (Chr p) r) (g, u) = (case u of [] \<Rightarrow> [] | c # cs \<Rightarrow> if p c then ms r (g, cs) else [])"
  by (cases u) simp_all

lemma ms_word:
  "rs \<noteq> [] \<Longrightarrow>
   ms (seq (word_i w @ rs)) (g, u) =
     (if ciPrefix (utf16 w) u then ms (seq rs) (g, drop (length w) u) else [])"
proof (induction w arbitrary: u)
  case Nil
  then show ?case by (simp add: word_i_def utf16_def)
next
  case (Cons a w)
  have ne: "word_i w @ rs \<noteq> []" using Cons.prems by simp
  have "ms (seq (word_i (a # w) @ rs)) (g, u) =
          ms (Seq (Chr (ci (of_char a))) (seq (word_i w @ rs))) (g, u)"
    using seq_Cons [OF ne] by (simp add: word_i_def)
  also have "\<dots> = (if ciPrefix (utf16 (a # w)) u
                    then ms (seq rs) (g, drop (length (a # w)) u) else [])"
    using Cons.IH [OF Cons.prems]
    by (cases u) (simp_all add: ms_Chr_Seq utf16_def)
  finally show ?case .
qed

subsection \<open>First results\<close>

lemma greedy_nonempty: "greedy p u \<noteq> []"
  by (cases u) simp_all

lemma hd_greedy: "hd (greedy p u) = dropWhile p u"
  by (induction u) (simp_all add: greedy_nonempty)

lemma greedy_stop:
  "v \<in> set (greedy p u) \<Longrightarrow> v = i # v' \<Longrightarrow> \<not> p i \<Longrightarrow> v = dropWhile p u"
  by (induction u) (auto split: if_splits)

lemma dropWhile_in_greedy: "dropWhile p u \<in> set (greedy p u)"
  by (induction u) simp_all

lemma lazy_end: "[] \<in> set (lazy anyChar u)"
  by (induction u) (simp_all add: anyChar_def)

lemma ms_Seq_nonempty:
  "st' \<in> set (ms r1 st) \<Longrightarrow> ms r2 st' \<noteq> [] \<Longrightarrow> ms (Seq r1 r2) st \<noteq> []"
  by auto

lemma hd_concat_map:
  "xs \<noteq> [] \<Longrightarrow> f (hd xs) \<noteq> [] \<Longrightarrow>
   concat (map f xs) \<noteq> [] \<and> hd (concat (map f xs)) = hd (f (hd xs))"
  by (cases xs) simp_all

lemma hd_Seq:
  "ms r1 st \<noteq> [] \<Longrightarrow> ms r2 (hd (ms r1 st)) \<noteq> [] \<Longrightarrow>
   ms (Seq r1 r2) st \<noteq> [] \<and> hd (ms (Seq r1 r2) st) = hd (ms r2 (hd (ms r1 st)))"
  using hd_concat_map [of "ms r1 st" "ms r2"] by simp

lemma hd_Star: "ms (Star p) (g, u) \<noteq> [] \<and> hd (ms (Star p) (g, u)) = (g, dropWhile p u)"
  by (simp add: greedy_nonempty hd_map hd_greedy)

lemma hd_Opt:
  "ms (Opt p) (g, u) \<noteq> [] \<and>
   hd (ms (Opt p) (g, u)) = (g, case u of [] \<Rightarrow> [] | c # cs \<Rightarrow> if p c then cs else u)"
  by (cases u) simp_all

lemma hd_Group_all:
  "ms (Group (Star anyChar)) (g, u) \<noteq> [] \<and> hd (ms (Group (Star anyChar)) (g, u)) = (Some u, [])"
proof -
  have d: "dropWhile anyChar u = []" by (simp add: anyChar_def)
  have "hd (greedy anyChar u) = []" using hd_greedy [of anyChar u] d by simp
  then show ?thesis by (simp add: greedy_nonempty hd_map)
qed

subsection \<open>The expression of the references, described directly\<close>

lemma refs_tail:
  "ms (seq [Opt (ci 83), Star isSpace, Star (\<lambda>c. colon c \<or> dash c), Star isSpace,
            Group (Star anyChar)]) (g, u) \<noteq> [] \<and>
   hd (ms (seq [Opt (ci 83), Star isSpace, Star (\<lambda>c. colon c \<or> dash c), Star isSpace,
                Group (Star anyChar)]) (g, u)) = (Some (afterMarker u), [])"
proof -
  let ?sep = "\<lambda>c. colon c \<or> dash c"
  let ?r4 = "Group (Star anyChar)"
  let ?r3 = "Seq (Star isSpace) ?r4"
  let ?r2 = "Seq (Star ?sep) ?r3"
  let ?r1 = "Seq (Star isSpace) ?r2"
  have s3: "ms ?r3 (h, v) \<noteq> [] \<and> hd (ms ?r3 (h, v)) = (Some (dropWhile isSpace v), [])" for h v
    using hd_Seq [of "Star isSpace" "(h, v)" ?r4] hd_Star [of isSpace h v]
      hd_Group_all [of h "dropWhile isSpace v"] by simp
  have s2: "ms ?r2 (h, v) \<noteq> [] \<and>
            hd (ms ?r2 (h, v)) = (Some (dropWhile isSpace (dropWhile ?sep v)), [])" for h v
    using hd_Seq [of "Star ?sep" "(h, v)" ?r3] hd_Star [of ?sep h v]
      s3 [of h "dropWhile ?sep v"] by simp
  have s1: "ms ?r1 (h, v) \<noteq> [] \<and>
            hd (ms ?r1 (h, v)) =
              (Some (dropWhile isSpace (dropWhile ?sep (dropWhile isSpace v))), [])" for h v
    using hd_Seq [of "Star isSpace" "(h, v)" ?r2] hd_Star [of isSpace h v]
      s2 [of h "dropWhile isSpace v"] by simp
  let ?w = "case u of [] \<Rightarrow> [] | c # cs \<Rightarrow> if ci 83 c then cs else u"
  have "ms (Seq (Opt (ci 83)) ?r1) (g, u) \<noteq> [] \<and>
        hd (ms (Seq (Opt (ci 83)) ?r1) (g, u)) =
          (Some (dropWhile isSpace (dropWhile ?sep (dropWhile isSpace ?w))), [])"
    using hd_Seq [of "Opt (ci 83)" "(g, u)" ?r1] hd_Opt [of "ci 83" g u] s1 [of g ?w] by simp
  then show ?thesis by (simp add: afterMarker_def)
qed

lemma refs_at:
  "ms refsRegex (g, u) =
     (if ciPrefix (utf16 ''REFERENCE'') u
      then ms (seq [Opt (ci 83), Star isSpace, Star (\<lambda>c. colon c \<or> dash c), Star isSpace,
                    Group (Star anyChar)]) (g, drop 9 u)
      else [])"
proof -
  let ?rs = "[Opt (ci 83), Star isSpace, Star (\<lambda>c. colon c \<or> dash c), Star isSpace,
              Group (Star anyChar)]"
  have ne: "?rs \<noteq> []" by simp
  have l: "length ''REFERENCE'' = 9" by simp
  have r: "refsRegex = seq (word_i ''REFERENCE'' @ ?rs)"
    by (simp only: refsRegex_def refsStart_def append_assoc append_Cons append_Nil)
  show ?thesis unfolding r ms_word [OF ne] l ..
qed

lemma match_refs:
  "match refsRegex t =
     (case firstMarker t of None \<Rightarrow> None | Some rest \<Rightarrow> Some (Some (afterMarker rest)))"
proof (induction t)
  case Nil
  have "\<not> ciPrefix (utf16 ''REFERENCE'') []" by (simp add: utf16_def)
  then show ?case by (simp add: refs_at)
next
  case (Cons c cs)
  show ?case
  proof (cases "ciPrefix (utf16 ''REFERENCE'') (c # cs)")
    case True
    let ?m = "ms refsRegex (None, c # cs)"
    from True refs_tail [of None "drop 9 (c # cs)"]
    have "?m \<noteq> [] \<and> hd ?m = (Some (afterMarker (drop 9 (c # cs))), [])"
      by (simp add: refs_at)
    then obtain other where "?m = (Some (afterMarker (drop 9 (c # cs))), []) # other"
      by (cases ?m) auto
    with True show ?thesis by simp
  next
    case False
    then have "ms refsRegex (None, c # cs) = []" by (simp add: refs_at)
    with False Cons show ?thesis by simp
  qed
qed

lemma refsBlock_direct:
  "refsBlock t = (case firstMarker t of None \<Rightarrow> [] | Some rest \<Rightarrow> afterMarker rest)"
  by (simp add: refsBlock_def match_refs split: option.splits)

subsection \<open>Recognizing a label, described directly\<close>

lemma ms_Plus_Seq:
  "ms (Seq (Plus p) r) (g, u) =
     (case u of [] \<Rightarrow> []
      | w # rest \<Rightarrow> if p w then concat (map (\<lambda>x. ms r (g, x)) (greedy p rest)) else [])"
  by (cases u) (simp_all add: comp_def)

lemma ciPrefix_I: "ciPrefix (utf16 (CHR ''I'' # l)) x \<Longrightarrow> \<exists>i v. x = i # v \<and> ci 73 i"
  by (cases x) (simp_all add: utf16_def)

lemma ci_I_not_space: "ci 73 i \<Longrightarrow> \<not> isSpace i"
  by (auto simp: ci_def toUpperAscii_def toLowerAscii_def isSpace_def)

lemma section_at:
  "ms (sectionRegex l) (g, u) =
     (if ciPrefix (utf16 ''PART'') u
      then (case drop 4 u of [] \<Rightarrow> []
            | w # rest \<Rightarrow>
                if isSpace w
                then concat (map (\<lambda>x. if ciPrefix (utf16 l) x
                                       then ms (seq sectionTail) (g, drop (length l) x) else [])
                                 (greedy isSpace rest))
                else [])
      else [])"
proof -
  let ?rs = "Plus isSpace # (word_i l @ sectionTail)"
  have ne: "?rs \<noteq> []" "word_i l @ sectionTail \<noteq> []" "sectionTail \<noteq> []"
    by (simp_all add: sectionTail_def)
  have l4: "length ''PART'' = 4" by simp
  have r: "sectionRegex l = seq (word_i ''PART'' @ ?rs)"
    by (simp only: sectionRegex_def sectionStart_def sectionTail_def append_assoc append_Cons
          append_Nil)
  show ?thesis
    unfolding r ms_word [OF ne(1)] l4 seq_Cons [OF ne(2)] ms_Plus_Seq ms_word [OF ne(3)] ..
qed

lemma section_needs_label:
  assumes "ms (sectionRegex (CHR ''I'' # l)) (g, u) \<noteq> []"
  shows "startsLabel u"
proof -
  from assms have p: "ciPrefix (utf16 ''PART'') u"
    by (simp add: section_at split: if_splits)
  from assms p obtain w rest where d: "drop 4 u = w # rest" and w: "isSpace w"
    and c: "concat (map (\<lambda>x. if ciPrefix (utf16 (CHR ''I'' # l)) x
                             then ms (seq sectionTail) (g, drop (length (CHR ''I'' # l)) x) else [])
                        (greedy isSpace rest)) \<noteq> []"
    by (auto simp: section_at split: if_splits list.splits)
  from c obtain x where x: "x \<in> set (greedy isSpace rest)"
    and px: "ciPrefix (utf16 (CHR ''I'' # l)) x"
    by (auto split: if_splits)
  from px obtain i v where xi: "x = i # v" and i: "ci 73 i" using ciPrefix_I by blast
  from greedy_stop [OF x xi ci_I_not_space [OF i]] xi have "dropWhile isSpace rest = i # v"
    by simp
  with p d w i show ?thesis by (simp add: startsLabel_def)
qed

lemma total_Seq:
  assumes "\<And>st. ms r1 st \<noteq> []" and "\<And>st. ms r2 st \<noteq> []"
  shows "ms (Seq r1 r2) st \<noteq> []"
proof -
  have "hd (ms r1 st) \<in> set (ms r1 st)" using assms(1) by simp
  then show ?thesis using assms(2) by (rule ms_Seq_nonempty)
qed

lemma total_Star: "ms (Star p) st \<noteq> []"
  by (cases st) (simp add: greedy_nonempty)

lemma total_Opt: "ms (Opt p) st \<noteq> []"
  by (cases st) simp

lemma stop_at_end: "ms sectionStop (h, []) \<noteq> []"
  by (simp add: sectionStop_def)

lemma total_capture: "ms (Seq (Group (LazyStar anyChar)) (Look sectionStop)) st \<noteq> []"
proof -
  obtain g u where st: "st = (g, u)" by (cases st)
  have "(g, []) \<in> set (ms (LazyStar anyChar) (g, u))" using lazy_end [of u] by simp
  then have "(Some u, []) \<in> set (ms (Group (LazyStar anyChar)) (g, u))" by force
  moreover have "ms (Look sectionStop) (Some u, []) \<noteq> []" using stop_at_end by simp
  ultimately show ?thesis unfolding st by (rule ms_Seq_nonempty)
qed

lemma total_tail: "ms (seq sectionTail) st \<noteq> []"
  unfolding sectionTail_def seq.simps
  by (intro total_Seq total_Star total_Opt total_capture)

lemma concat_map_nonempty: "x \<in> set xs \<Longrightarrow> f x \<noteq> [] \<Longrightarrow> concat (map f xs) \<noteq> []"
  by auto

lemma section_at_label:
  assumes "startsLabel u"
  shows "ms (sectionRegex ''I'') (g, u) \<noteq> []"
proof -
  from assms obtain w rest i v where p: "ciPrefix (utf16 ''PART'') u"
    and d: "drop 4 u = w # rest" and w: "isSpace w"
    and x: "dropWhile isSpace rest = i # v" and i: "ci 73 i"
    by (auto simp: startsLabel_def split: list.splits)
  let ?f = "\<lambda>x. if ciPrefix (utf16 ''I'') x
                then ms (seq sectionTail) (g, drop (length ''I'') x) else []"
  have m: "i # v \<in> set (greedy isSpace rest)"
    using dropWhile_in_greedy [of isSpace rest] x by simp
  have "ciPrefix (utf16 ''I'') (i # v)" using i by (simp add: utf16_def)
  then have "?f (i # v) = ms (seq sectionTail) (g, v)" by simp
  then have "?f (i # v) \<noteq> []" using total_tail [of "(g, v)"] by simp
  with m have "concat (map ?f (greedy isSpace rest)) \<noteq> []" by (rule concat_map_nonempty)
  with p d w show ?thesis by (simp add: section_at)
qed

lemma label_unrecognized:
  assumes "\<not> hasLabel t" and "l \<in> set [''I'', ''II'', ''III'', ''IV'']"
  shows "match (sectionRegex l) t = None"
proof -
  from assms(2) obtain l' where l: "l = CHR ''I'' # l'" by auto
  have none: "ms (sectionRegex l) (None, u) = []" if "\<not> startsLabel u" for u
    using that section_needs_label [of l' None u] unfolding l by blast
  have e: "\<not> startsLabel []" by (simp add: startsLabel_def utf16_def)
  from assms(1) show ?thesis
  proof (induction t)
    case Nil
    then show ?case using none [OF e] by simp
  next
    case (Cons c cs)
    then show ?case using none [of "c # cs"] by simp
  qed
qed

lemma label_recognized:
  assumes "hasLabel t"
  shows "match (sectionRegex ''I'') t \<noteq> None"
  using assms
proof (induction t)
  case Nil
  then show ?case by simp
next
  case (Cons c cs)
  show ?case
  proof (cases "ms (sectionRegex ''I'') (None, c # cs)")
    case Nil
    with section_at_label [of "c # cs" None] have "\<not> startsLabel (c # cs)" by blast
    with Cons Nil show ?thesis by simp
  next
    case (Cons st other)
    then show ?thesis by (cases st) simp
  qed
qed

lemma recognized_iff:
  "(\<exists>l \<in> set [''I'', ''II'', ''III'', ''IV'']. match (sectionRegex l) t \<noteq> None) \<longleftrightarrow> hasLabel t"
proof
  assume "\<exists>l \<in> set [''I'', ''II'', ''III'', ''IV'']. match (sectionRegex l) t \<noteq> None"
  then obtain l where l: "l \<in> set [''I'', ''II'', ''III'', ''IV'']"
    and m: "match (sectionRegex l) t \<noteq> None" by blast
  show "hasLabel t"
  proof (rule ccontr)
    assume "\<not> hasLabel t"
    then have "match (sectionRegex l) t = None" using l by (rule label_unrecognized)
    with m show False by simp
  qed
next
  assume "hasLabel t"
  then have "match (sectionRegex ''I'') t \<noteq> None" by (rule label_recognized)
  then show "\<exists>l \<in> set [''I'', ''II'', ''III'', ''IV'']. match (sectionRegex l) t \<noteq> None"
    by simp
qed

lemma getSection_no_match:
  "match (sectionRegex l) t = None \<Longrightarrow> getSection t l = []"
  by (simp add: getSection_def)

lemma unlabeled_sections:
  assumes "\<not> hasLabel t"
  shows "\<forall>l \<in> set [''I'', ''II'', ''III'', ''IV'']. getSection t l = []"
  using label_unrecognized [OF assms] getSection_no_match by blast

subsection \<open>Normalization\<close>

text \<open>
  \<open>trim\<close> removes white space at both ends and nothing else, and the replacement turns
  each carriage return that a line feed follows into nothing.
\<close>

lemma trim_surround:
  "\<exists>pre post. s = pre @ trim s @ post \<and> (\<forall>c \<in> set pre. isSpace c) \<and> (\<forall>c \<in> set post. isSpace c)"
proof -
  let ?d = "dropWhile isSpace s"
  have 1: "s = takeWhile isSpace s @ ?d" by simp
  have "?d = rev (takeWhile isSpace (rev ?d) @ dropWhile isSpace (rev ?d))"
    by (simp only: takeWhile_dropWhile_id rev_rev_ident)
  also have "\<dots> = rev (dropWhile isSpace (rev ?d)) @ rev (takeWhile isSpace (rev ?d))"
    by (simp only: rev_append)
  finally have 2: "?d = trim s @ rev (takeWhile isSpace (rev ?d))"
    by (simp only: trim_def)
  have "s = takeWhile isSpace s @ trim s @ rev (takeWhile isSpace (rev ?d))"
    using 1 2 by metis
  moreover have "\<forall>c \<in> set (takeWhile isSpace s). isSpace c"
    by (meson set_takeWhileD)
  moreover have "\<forall>c \<in> set (rev (takeWhile isSpace (rev ?d))). isSpace c"
    by (metis set_rev set_takeWhileD)
  ultimately show ?thesis by blast
qed

lemma trim_edges:
  assumes "trim s \<noteq> []"
  shows "\<not> isSpace (hd (trim s)) \<and> \<not> isSpace (last (trim s))"
proof -
  let ?d = "dropWhile isSpace s"
  let ?e = "dropWhile isSpace (rev ?d)"
  from assms have e: "?e \<noteq> []" by (simp add: trim_def)
  have d: "?d \<noteq> []"
  proof
    assume a: "?d = []"
    have "?e = []" unfolding a by simp
    with e show False by simp
  qed
  have "last (trim s) = hd ?e" using e by (simp add: trim_def last_rev)
  moreover have "\<not> isSpace (hd ?e)" using e by (rule hd_dropWhile)
  moreover have "hd (trim s) = last ?e" using e by (simp add: trim_def hd_rev)
  moreover have "rev ?d = takeWhile isSpace (rev ?d) @ ?e" by simp
  then have "last (rev ?d) = last ?e" using e by (metis last_appendR)
  then have "last ?e = hd ?d" using d by (simp add: last_rev)
  moreover have "\<not> isSpace (hd ?d)" using d by (rule hd_dropWhile)
  ultimately show ?thesis by simp
qed

lemma replaceCRLF_plain: "13 \<notin> set s \<Longrightarrow> replaceCRLF s = s"
  by (induction s rule: replaceCRLF.induct) auto

lemma replaceCRLF_pair: "replaceCRLF (a @ 13 # 10 # b) = replaceCRLF a @ 10 # replaceCRLF b"
  by (induction a rule: replaceCRLF.induct) auto

subsection \<open>The fallback\<close>

text \<open>
  Claim C5. When no label is recognized in the normalized text (it contains nowhere the
  word \<open>PART\<close>, white space and the letter \<open>I\<close>, ignoring case, which is exactly when none
  of the four expressions matches), the parser returns the whole normalized text (carriage
  return and line feed replaced by line feed, then trimmed) as \<open>issue\<close> and leaves \<open>facts\<close>,
  \<open>analysis\<close> and \<open>actions\<close> empty.
\<close>

theorem parser_fallback:
  assumes "\<not> hasLabel (trim (replaceCRLF c))"
  shows "issue (parseDraftContent c) = trim (replaceCRLF c) \<and> facts (parseDraftContent c) = []
       \<and> analysis (parseDraftContent c) = [] \<and> actions (parseDraftContent c) = []"
  using unlabeled_sections [OF assms]
  by (simp add: parseDraftContent_def normalizeText_def Let_def)

lemma hello_normal: "trim (replaceCRLF (utf16 ''Hello elves'')) = utf16 ''Hello elves''"
  by (simp add: parser_eval)

lemma hello_unlabeled: "\<not> hasLabel (utf16 ''Hello elves'')"
  by (simp add: startsLabel_def parser_eval)

lemma padded_normal: "trim (replaceCRLF paddedExample) = paddedNormal"
  by (simp add: paddedExample_def paddedNormal_def parser_eval)

lemma padded_unlabeled: "\<not> hasLabel paddedNormal"
  by (simp add: paddedNormal_def startsLabel_def parser_eval)

text \<open>
  The text \<open>Hello elves\<close> of the specification, and a text with carriage returns and outer
  white space, whose issue is the normalized text.
\<close>

theorem parser_fallback_witness:
  "issue (parseDraftContent (utf16 ''Hello elves'')) = utf16 ''Hello elves''
   \<and> facts (parseDraftContent (utf16 ''Hello elves'')) = []
   \<and> analysis (parseDraftContent (utf16 ''Hello elves'')) = []
   \<and> actions (parseDraftContent (utf16 ''Hello elves'')) = []
   \<and> issue (parseDraftContent paddedExample) = paddedNormal
   \<and> facts (parseDraftContent paddedExample) = []
   \<and> analysis (parseDraftContent paddedExample) = []
   \<and> actions (parseDraftContent paddedExample) = []"
proof -
  have a: "\<not> hasLabel (trim (replaceCRLF (utf16 ''Hello elves'')))"
    unfolding hello_normal by (rule hello_unlabeled)
  have b: "\<not> hasLabel (trim (replaceCRLF paddedExample))"
    unfolding padded_normal by (rule padded_unlabeled)
  from parser_fallback [OF a] parser_fallback [OF b] show ?thesis
    by (simp only: hello_normal padded_normal)
qed

subsection \<open>The labeled example\<close>

lemma labeled_normal: "normalizeText labeledExample = labeledExample"
  by (simp add: parser_eval labeledExample_def)

lemma labeled_I: "getSection labeledExample ''I'' = utf16 ''Issue text''"
  by (simp add: parser_eval labeledExample_def)

lemma labeled_II: "getSection labeledExample ''II'' = utf16 ''Facts text''"
  by (simp add: parser_eval labeledExample_def)

lemma labeled_III: "getSection labeledExample ''III'' = []"
  by (simp add: parser_eval labeledExample_def)

lemma labeled_IV: "getSection labeledExample ''IV'' = []"
  by (simp add: parser_eval labeledExample_def)

lemma labeled_refs:
  "refsBlock labeledExample = utf16 ''- Source A'' @ [10] @ utf16 ''- Source B''"
  by (simp add: parser_eval labeledExample_def)

text \<open>
  Claim C6. On the text \<open>PART I: Issue text\<close>, \<open>PART II: Facts text\<close>, \<open>REFERENCES:\<close>,
  \<open>- Source A\<close>, \<open>- Source B\<close> (five lines joined by line feeds) the parser returns the issue
  \<open>Issue text\<close>, the facts \<open>Facts text\<close> and the references \<open>Source A\<close>, \<open>Source B\<close>.
\<close>

theorem parser_labeled:
  "issue (parseDraftContent labeledExample) = utf16 ''Issue text''
   \<and> facts (parseDraftContent labeledExample) = utf16 ''Facts text''
   \<and> references (parseDraftContent labeledExample) = [utf16 ''Source A'', utf16 ''Source B'']"
  unfolding parseDraftContent_def labeled_normal Let_def labeled_I labeled_II labeled_III
    labeled_IV labeled_refs
  by (simp add: parser_eval)

subsection \<open>The references survive the fallback\<close>

lemma bulletsOnly_normal: "normalizeText bulletsOnlyExample = bulletsOnlyExample"
  by (simp add: parser_eval bulletsOnlyExample_def)

lemma bulletsOnly_I: "getSection bulletsOnlyExample ''I'' = []"
  by (simp add: parser_eval bulletsOnlyExample_def)

lemma bulletsOnly_II: "getSection bulletsOnlyExample ''II'' = []"
  by (simp add: parser_eval bulletsOnlyExample_def)

lemma bulletsOnly_III: "getSection bulletsOnlyExample ''III'' = []"
  by (simp add: parser_eval bulletsOnlyExample_def)

lemma bulletsOnly_IV: "getSection bulletsOnlyExample ''IV'' = []"
  by (simp add: parser_eval bulletsOnlyExample_def)

lemma bulletsOnly_block: "refsBlock bulletsOnlyExample = utf16 ''---'' @ [10] @ utf16 ''1.''"
  by (simp add: parser_eval bulletsOnlyExample_def)

lemma bulletsOnly_lines:
  "splitLines (utf16 ''---'' @ [10] @ utf16 ''1.'') = [utf16 ''---'', utf16 ''1.'']"
  by (simp add: utf16_def)

text \<open>
  Claim C10, as stated: with no section content and a marker followed by non-empty lines
  the list of references is not empty. In the text \<open>REFERENCES:\<close>, \<open>---\<close>, \<open>1.\<close> the marker
  is followed by two non-empty lines, the four bodies are empty and the issue is the
  whole text, yet there is no reference: both lines are empty once stripped.
\<close>

theorem bullet_lines_counterexample:
  "getSection (normalizeText bulletsOnlyExample) ''I'' = []
   \<and> getSection (normalizeText bulletsOnlyExample) ''II'' = []
   \<and> getSection (normalizeText bulletsOnlyExample) ''III'' = []
   \<and> getSection (normalizeText bulletsOnlyExample) ''IV'' = []
   \<and> splitLines (refsBlock (normalizeText bulletsOnlyExample)) = [utf16 ''---'', utf16 ''1.'']
   \<and> issue (parseDraftContent bulletsOnlyExample) = bulletsOnlyExample
   \<and> references (parseDraftContent bulletsOnlyExample) = []"
  unfolding parseDraftContent_def bulletsOnly_normal Let_def bulletsOnly_I bulletsOnly_II
    bulletsOnly_III bulletsOnly_IV bulletsOnly_block bulletsOnly_lines
  by (simp add: parser_eval)

text \<open>
  Claim C10, amended. The fallback depends on the four extracted bodies being empty, not
  on the labels being absent, and the references are extracted independently of it: when
  the four bodies are empty and the block after the first \<open>REFERENCE\<close> marker of the
  normalized text has a line that is not empty once its leading bullets, digits, dots and
  white space are stripped, \<open>issue\<close> is the whole normalized text and \<open>references\<close> is the
  non-empty list of the stripped lines that are not empty.
\<close>

theorem fallback_keeps_references:
  assumes "\<forall>l \<in> set [''I'', ''II'', ''III'', ''IV'']. getSection (trim (replaceCRLF c)) l = []"
    and "firstMarker (trim (replaceCRLF c)) = Some rest"
    and "\<exists>line \<in> set (splitLines (afterMarker rest)). stripBullet line \<noteq> []"
  shows "issue (parseDraftContent c) = trim (replaceCRLF c)
       \<and> references (parseDraftContent c) =
           filter (\<lambda>l. l \<noteq> []) (map stripBullet (splitLines (afterMarker rest)))
       \<and> references (parseDraftContent c) \<noteq> []"
proof -
  have b: "refsBlock (trim (replaceCRLF c)) = afterMarker rest"
    using assms(2) by (simp add: refsBlock_direct)
  from assms(3) obtain line where "line \<in> set (splitLines (afterMarker rest))"
    and "stripBullet line \<noteq> []" by blast
  then have "stripBullet line \<in> set (filter (\<lambda>l. l \<noteq> [])
               (map stripBullet (splitLines (afterMarker rest))))"
    by simp
  then have "filter (\<lambda>l. l \<noteq> []) (map stripBullet (splitLines (afterMarker rest))) \<noteq> []"
    by (metis empty_iff list.set(1))
  with assms(1) b show ?thesis
    by (simp add: parseDraftContent_def normalizeText_def Let_def)
qed

lemma refsOnly_normal: "trim (replaceCRLF refsOnlyExample) = refsOnlyNormal"
  by (simp add: refsOnlyExample_def refsOnlyNormal_def parser_eval)

lemma refsOnly_sections:
  "\<forall>l \<in> set [''I'', ''II'', ''III'', ''IV'']. getSection refsOnlyNormal l = []"
  by (simp add: parser_eval refsOnlyNormal_def)

lemma refsOnly_label_seen: "match (sectionRegex ''I'') refsOnlyNormal = Some (Some [])"
  by (simp add: parser_eval refsOnlyNormal_def)

lemma refsOnly_marker:
  "firstMarker refsOnlyNormal =
     Some (utf16 ''S:'' @ [10] @ utf16 ''- Source A'' @ [10] @ utf16 ''2. Source B'' @ [10] @
           utf16 ''PART I:'')"
  by (simp add: parser_eval refsOnlyNormal_def)

lemma refsOnly_lines:
  "map stripBullet (splitLines (afterMarker
      (utf16 ''S:'' @ [10] @ utf16 ''- Source A'' @ [10] @ utf16 ''2. Source B'' @ [10] @
       utf16 ''PART I:''))) =
     [utf16 ''Source A'', utf16 ''Source B'', utf16 ''PART I:'']"
  by (simp add: afterMarker_def parser_eval)

text \<open>
  A text with carriage returns and outer white space whose normal form is \<open>REFERENCES:\<close>,
  \<open>- Source A\<close>, \<open>2. Source B\<close>, \<open>PART I:\<close>: the label \<open>PART I\<close> is matched with an empty
  body, the issue is the whole normalized text, and the three lines after the marker are
  the references.
\<close>

theorem fallback_keeps_references_witness:
  "match (sectionRegex ''I'') refsOnlyNormal = Some (Some [])
   \<and> issue (parseDraftContent refsOnlyExample) = refsOnlyNormal
   \<and> references (parseDraftContent refsOnlyExample) =
       [utf16 ''Source A'', utf16 ''Source B'', utf16 ''PART I:'']"
proof -
  let ?rest = "utf16 ''S:'' @ [10] @ utf16 ''- Source A'' @ [10] @ utf16 ''2. Source B'' @ [10] @
               utf16 ''PART I:''"
  have s: "\<forall>l \<in> set [''I'', ''II'', ''III'', ''IV''].
             getSection (trim (replaceCRLF refsOnlyExample)) l = []"
    unfolding refsOnly_normal by (rule refsOnly_sections)
  have m: "firstMarker (trim (replaceCRLF refsOnlyExample)) = Some ?rest"
    unfolding refsOnly_normal by (rule refsOnly_marker)
  have "\<exists>line \<in> set (map stripBullet (splitLines (afterMarker ?rest))). line \<noteq> []"
    unfolding refsOnly_lines by (simp add: utf16_empty)
  then have h: "\<exists>line \<in> set (splitLines (afterMarker ?rest)). stripBullet line \<noteq> []"
    by auto
  have f: "filter (\<lambda>l. l \<noteq> []) (map stripBullet (splitLines (afterMarker ?rest))) =
          [utf16 ''Source A'', utf16 ''Source B'', utf16 ''PART I:'']"
    unfolding refsOnly_lines by (simp add: utf16_empty)
  from fallback_keeps_references [OF s m h] refsOnly_label_seen
  show ?thesis by (simp only: refsOnly_normal f simp_thms)
qed

section \<open>The motion controller\<close>

lemma clamp_bounds: "mn \<le> mx \<Longrightarrow> mn \<le> clamp v mn mx \<and> clamp v mn mx \<le> mx"
  by (simp add: clamp_def)

lemma refreshDraft_frame [simp]:
  "houses (refreshDraft s) = houses s"
  "housesRef (refreshDraft s) = housesRef s"
  "santa (refreshDraft s) = santa s"
  "targetId (refreshDraft s) = targetId s"
  "logs (refreshDraft s) = logs s"
  "compliance (refreshDraft s) = compliance s"
  "isValidating (refreshDraft s) = isValidating s"
  "chatMessages (refreshDraft s) = chatMessages s"
  "lastFrame (refreshDraft s) = lastFrame s"
  "resetTimers (refreshDraft s) = resetTimers s"
  by (simp_all add: refreshDraft_def Let_def)

lemma pickNextTarget_frame:
  assumes "pickNextTarget rnd s = Inr s'"
  shows "houses s' = houses s \<and> housesRef s' = housesRef s \<and> santa s' = santa s
       \<and> compliance s' = compliance s \<and> chatMessages s' = chatMessages s
       \<and> draftSections s' = draftSections s"
  using assms by (auto simp: pickNextTarget_def Let_def split: if_splits)


lemma step_bounds:
  assumes "step timestamp rnd s = Inr s'" and "inBounds (santa s)"
  shows "inBounds (santa s')"
  using assms
  by (auto simp: step_def Let_def inBounds_def clamp_def
           dest!: pickNextTarget_frame split: if_splits option.splits)

lemma step_houses:
  assumes "step timestamp rnd s = Inr s'"
  shows "length (houses s') = length (houses s) \<and>
         (\<forall>i < length (houses s).
            house_id (houses s' ! i) = house_id (houses s ! i) \<and>
            (delivered (houses s ! i) \<longrightarrow> delivered (houses s' ! i)))"
  using assms
  by (auto simp: step_def Let_def
           dest!: pickNextTarget_frame split: if_splits option.splits)

text \<open>Every callback but the frame leaves the houses, the position and the target alone.\<close>

lemma dispatch_other:
  assumes "dispatch e s = Inr s'" and "\<forall>timestamp rnd. e \<noteq> Frame timestamp rnd"
  shows "houses s' = houses s \<and> santa s' = santa s \<and> targetId s' = targetId s"
  using assms
  by (cases e)
     (auto simp: triggerCompliance_def startDrafting_def validateBegin_def validateSettle_def
                 submitCase_def submitReset_def Let_def split: if_splits FetchResult.splits)

lemma dispatch_bounds:
  assumes "dispatch e s = Inr s'" and "inBounds (santa s)"
  shows "inBounds (santa s')"
proof (cases "\<exists>timestamp rnd. e = Frame timestamp rnd")
  case True
  with assms show ?thesis by (auto dest: step_bounds)
next
  case False
  with assms dispatch_other [of e s s'] show ?thesis by simp
qed

lemma dispatch_houses:
  assumes "dispatch e s = Inr s'"
  shows "length (houses s') = length (houses s) \<and>
         (\<forall>i < length (houses s).
            house_id (houses s' ! i) = house_id (houses s ! i) \<and>
            (delivered (houses s ! i) \<longrightarrow> delivered (houses s' ! i)))"
proof (cases "\<exists>timestamp rnd. e = Frame timestamp rnd")
  case True
  with assms show ?thesis using step_houses by auto
next
  case False
  with assms dispatch_other [of e s s'] show ?thesis by simp
qed

lemma run_bounds:
  "run es s = Inr s' \<Longrightarrow> inBounds (santa s) \<Longrightarrow> inBounds (santa s')"
proof (induction es arbitrary: s)
  case Nil
  then show ?case by simp
next
  case (Cons e es)
  then show ?case by (auto split: sum.splits dest: dispatch_bounds)
qed

lemma sqrt_nine: "sqrt 9 = 3"
  using real_sqrt_abs2 [of 3] by simp

lemmas game_eval = initial_def step_def pickNextTarget_def noTarget_def Let_def exampleHouse_def
  doneHouse_def nearHouse_def arrivalRadius_def speedPerSecond_def clamp_def sqrt_nine utf16_empty

lemma alertExample_compliance:
  "compliance alertExample =
     \<lparr>active = True,
      agency = Some (utf16 ''Federal Aviation Administration (FAA) - United States''),
      stage = Alert\<rparr>"
  by (simp add: alertExample_def triggerCompliance_def remainingDeliveries_def pickAgency_def
        AGENCIES_def game_eval)

lemma alertExample_chat:
  "chatMessages alertExample =
     [incidentMessage (Some (utf16 ''Federal Aviation Administration (FAA) - United States''))]"
  by (simp add: alertExample_def triggerCompliance_def remainingDeliveries_def pickAgency_def
        AGENCIES_def game_eval)

lemma alertExample_validating: "\<not> isValidating alertExample"
  by (simp add: alertExample_def triggerCompliance_def remainingDeliveries_def game_eval)

lemma draftingExample_facts:
  "compliance draftingExample =
     \<lparr>active = True,
      agency = Some (utf16 ''Federal Aviation Administration (FAA) - United States''),
      stage = Drafting\<rparr>"
  "chatMessages draftingExample = chatMessages alertExample"
  "\<not> isValidating draftingExample"
  by (simp_all add: draftingExample_def startDrafting_def alertExample_compliance
        alertExample_validating)



text \<open>
  Claim C3. From the initial position (48, 30), after any sequence of callbacks (frames
  with any time stamps and random draws among them) over any list of houses, both
  coordinates of the position lie between 1 and 99.
\<close>

theorem position_in_bounds:
  assumes "run es (initial hs now) = Inr s"
  shows "1 \<le> pos_x (santa s) \<and> pos_x (santa s) \<le> 99
       \<and> 1 \<le> pos_y (santa s) \<and> pos_y (santa s) \<le> 99"
proof -
  have "inBounds (santa (initial hs now))" by (simp add: initial_def inBounds_def)
  with assms have "inBounds (santa s)" by (rule run_bounds)
  then show ?thesis by (simp add: inBounds_def)
qed

lemma move_run:
  "\<exists>s. run [Frame 16 0, Frame 32 0] (initial [exampleHouse] 0) = Inr s
       \<and> santa s = \<lparr>pos_x = 48.352, pos_y = 30\<rparr>"
  by (simp add: game_eval)

text \<open>Two frames: the first picks the house, the second moves towards it.\<close>

theorem position_in_bounds_witness:
  "\<exists>s. run [Frame 16 0, Frame 32 0] (initial [exampleHouse] 0) = Inr s
       \<and> santa s = \<lparr>pos_x = 48.352, pos_y = 30\<rparr>
       \<and> 1 \<le> pos_x (santa s) \<and> pos_x (santa s) \<le> 99
       \<and> 1 \<le> pos_y (santa s) \<and> pos_y (santa s) \<le> 99"
proof -
  from move_run obtain s
    where r: "run [Frame 16 0, Frame 32 0] (initial [exampleHouse] 0) = Inr s"
      and p: "santa s = \<lparr>pos_x = 48.352, pos_y = 30\<rparr>" by blast
  from position_in_bounds [OF r] r p show ?thesis by blast
qed









text \<open>
  Claim C8. Along any sequence of callbacks from any state, the collection keeps its
  length and the id of each house, and a house that is delivered stays delivered: the
  flag never goes back to false, so it goes from false to true at most once.
\<close>

theorem delivered_never_reverts:
  assumes "run es s = Inr s'"
  shows "length (houses s') = length (houses s) \<and>
         (\<forall>i < length (houses s).
            house_id (houses s' ! i) = house_id (houses s ! i) \<and>
            (delivered (houses s ! i) \<longrightarrow> delivered (houses s' ! i)))"
  using assms
proof (induction es arbitrary: s)
  case Nil
  then show ?case by simp
next
  case (Cons e es)
  then obtain s1 where d: "dispatch e s = Inr s1" and r: "run es s1 = Inr s'"
    by (auto split: sum.splits)
  from dispatch_houses [OF d] Cons.IH [OF r] show ?case by auto
qed

lemma deliver_run:
  "\<exists>s. run [Frame 16 0, Frame 32 0] (initial [doneHouse, nearHouse] 0) = Inr s
       \<and> map delivered (houses s) = [True, True]"
  by (simp add: game_eval)

text \<open>Two frames deliver the second house; the first, delivered before, stays so.\<close>

theorem delivered_never_reverts_witness:
  "\<exists>s. run [Frame 16 0, Frame 32 0] (initial [doneHouse, nearHouse] 0) = Inr s
       \<and> delivered (houses (initial [doneHouse, nearHouse] 0) ! 0)
       \<and> length (houses s) = 2 \<and> delivered (houses s ! 0)"
proof -
  from deliver_run obtain s
    where r: "run [Frame 16 0, Frame 32 0] (initial [doneHouse, nearHouse] 0) = Inr s"
    by blast
  have d: "delivered (houses (initial [doneHouse, nearHouse] 0) ! 0)"
    by (simp add: initial_def doneHouse_def)
  have l: "length (houses (initial [doneHouse, nearHouse] 0)) = 2"
    by (simp add: initial_def)
  from delivered_never_reverts [OF r] d l
  have "length (houses s) = 2 \<and> delivered (houses s ! 0)"
    by simp
  with r d show ?thesis by blast
qed

section \<open>The interrupt scheduler and the compliance session\<close>





text \<open>
  What \<open>validateCase\<close> does: among all callbacks only a validation request that returns a
  response moves the stage to \<open>ready\<close>, and it does so whatever the status and the body of
  the response; a request that throws appends the failure message and keeps the stage.
\<close>

lemma step_compliance:
  assumes "step timestamp rnd s = Inr s'"
  shows "compliance s' = compliance s \<and> chatMessages s' = chatMessages s"
  using assms
  by (auto simp: step_def Let_def dest!: pickNextTarget_frame split: if_splits option.splits)

lemma ready_only_by_response:
  assumes "dispatch e s = Inr s'" and "stage (compliance s) \<noteq> Ready"
    and "stage (compliance s') = Ready"
  shows "\<exists>status txt. e = ValidationSettled (Responded status txt)"
  using assms
  by (cases e)
     (auto simp: triggerCompliance_def startDrafting_def validateBegin_def validateSettle_def
                 submitCase_def submitReset_def Let_def
           dest!: step_compliance split: if_splits FetchResult.splits)

lemma validateCase_outcome:
  assumes "\<not> validateGuard s" and "stage (compliance s) = Drafting"
  shows "(stage (compliance (validateCase res s)) = Ready \<longleftrightarrow>
            (\<exists>status txt. res = Responded status txt))
       \<and> (res = Threw \<longrightarrow>
            stage (compliance (validateCase res s)) = Drafting
            \<and> chatMessages (validateCase res s) =
                chatMessages s @
                [\<lparr>role = Assistant, content = utf16 ''Validation failed. Please retry.''\<rparr>]
            \<and> \<not> validateGuard (validateCase res s))"
  using assms
  by (cases res)
     (auto simp: validateCase_def validateSettle_def validateBegin_def validateGuard_def)

lemma draftingExample_guard: "\<not> validateGuard draftingExample"
  by (simp add: validateGuard_def draftingExample_facts alertExample_chat)

text \<open>
  Claim C9: the stage advances to \<open>ready\<close> only when the validation succeeds, and a failed
  validation leaves it at \<open>drafting\<close>. A validation that fails with a response of status
  500 moves the stage to \<open>ready\<close>: its body is appended as the assistant message, and
  \<open>Validation complete.\<close> when the body is empty.
\<close>

theorem validation_http_error:
  "stage (compliance draftingExample) = Drafting
   \<and> \<not> validateGuard draftingExample
   \<and> stage (compliance (validateCase (Responded 500 (utf16 ''Internal Server Error''))
                          draftingExample)) = Ready
   \<and> chatMessages (validateCase (Responded 500 (utf16 ''Internal Server Error''))
                     draftingExample) =
       chatMessages draftingExample @
       [\<lparr>role = Assistant, content = utf16 ''Internal Server Error''\<rparr>]
   \<and> stage (compliance (validateCase (Responded 500 []) draftingExample)) = Ready
   \<and> chatMessages (validateCase (Responded 500 []) draftingExample) =
       chatMessages draftingExample @
       [\<lparr>role = Assistant, content = utf16 ''Validation complete.''\<rparr>]"
  using draftingExample_guard
  by (simp add: validateCase_def validateSettle_def validateBegin_def draftingExample_facts
        utf16_empty)

text \<open>
  Claim C1, as stated: in stage \<open>alert\<close> the submit action leaves the session unchanged.
  \<open>submitCase\<close> does not look at the stage: called in stage \<open>alert\<close> it moves the session
  to \<open>submitted\<close>.
\<close>

theorem submit_from_alert_counterexample:
  "stage (compliance alertExample) = Alert
   \<and> compliance (submitCase alertExample) \<noteq> compliance alertExample"
  by (simp add: submitCase_def alertExample_compliance)

text \<open>
  Claim C1, amended. \<open>submitCase\<close> sets the stage to \<open>submitted\<close> from every stage and keeps
  the active flag and the agency. The modal offers an enabled submit button only while the
  session is active in stage \<open>ready\<close>, and a click on a button that the modal does not
  offer (submit, start or validate) changes nothing.
\<close>

theorem submitCase_unguarded:
  "compliance (submitCase s) = (compliance s)\<lparr>stage := Submitted\<rparr>
   \<and> (offersSubmit s \<longleftrightarrow> active (compliance s) \<and> stage (compliance s) = Ready)
   \<and> (\<not> offersSubmit s \<longrightarrow> dispatch ClickSubmit s = Inr s)
   \<and> (\<not> offersStart s \<longrightarrow> dispatch ClickStart s = Inr s)
   \<and> (\<not> offersValidate s \<longrightarrow> dispatch ClickValidate s = Inr s)"
  by (auto simp: submitCase_def offersSubmit_def)

theorem submitCase_unguarded_witness:
  "stage (compliance alertExample) = Alert
   \<and> stage (compliance (submitCase alertExample)) = Submitted
   \<and> \<not> offersSubmit alertExample \<and> dispatch ClickSubmit alertExample = Inr alertExample
   \<and> \<not> offersValidate alertExample \<and> dispatch ClickValidate alertExample = Inr alertExample
   \<and> \<not> offersStart draftingExample \<and> dispatch ClickStart draftingExample = Inr draftingExample"
proof -
  have a: "\<not> offersSubmit alertExample" "\<not> offersValidate alertExample"
    "stage (compliance alertExample) = Alert"
    by (simp_all add: offersSubmit_def offersValidate_def alertExample_compliance)
  have b: "\<not> offersStart draftingExample"
    by (simp add: offersStart_def draftingExample_facts)
  from a b submitCase_unguarded [of alertExample] submitCase_unguarded [of draftingExample]
  show ?thesis by simp
qed

end
